theory Spec2Isabelle
  imports Main "HOL-Library.Sublist" "HOL-Library.Multiset"
begin

section \<open>Scope\<close>

text \<open>
  The model follows \<^verbatim>\<open>mfe.go\<close>, the program that is released. \<^verbatim>\<open>extract.go\<close> is an
  earlier form of it with the same four functions: it prints with \<^verbatim>\<open>fmt.Printf\<close> the
  three lines that \<^verbatim>\<open>mfe.go\<close> prints with \<^verbatim>\<open>logDebug\<close>, which is the model in debug
  mode as far as these lines go, and its \<^verbatim>\<open>copyFiles\<close> returns no count.
\<close>

section \<open>Name sanitizer\<close>

text \<open>
  Go strings are byte sequences; a \<^typ>\<open>string\<close> is a list of 8-bit characters, so one
  \<^typ>\<open>char\<close> is one byte of the Go string.

  The source compiles the regular expression \<^verbatim>\<open>[<>:"/\\|?*\x00-\x1F]+\<close> into
  \<^verbatim>\<open>forbidden\<close>: one bracket expression under the quantifier \<^verbatim>\<open>+\<close>. The bracket
  expression is a list of single characters followed by one range. Every member of the
  class is an ASCII character, every byte of a multi-byte UTF-8 sequence is at least
  \<^verbatim>\<open>0x80\<close>, and the regular expression engine copies the bytes outside a match
  unchanged, so matching byte by byte agrees with matching rune by rune.
\<close>

datatype class_item = Single char | Range char char

fun class_item_matches :: "class_item \<Rightarrow> char \<Rightarrow> bool" where
  "class_item_matches (Single a) c = (c = a)"
| "class_item_matches (Range lo hi) c =
     ((of_char lo :: nat) \<le> of_char c \<and> (of_char c :: nat) \<le> of_char hi)"

definition forbidden_class :: "class_item list" where
  "forbidden_class =
     [Single (CHR ''<''), Single (CHR ''>''), Single (CHR '':''), Single (CHR 0x22),
      Single (CHR ''/''), Single (CHR 0x5C), Single (CHR ''|''), Single (CHR ''?''),
      Single (CHR ''*''), Range (CHR 0x00) (CHR 0x1F)]"

definition forbidden :: "char \<Rightarrow> bool" where
  "forbidden c = list_ex (\<lambda>i. class_item_matches i c) forbidden_class"

text \<open>
  \<^verbatim>\<open>forbidden.ReplaceAllString(src, repl)\<close>: scanning from the left, every maximal
  non-empty run of class members (the leftmost-longest match of \<^verbatim>\<open>[...]+\<close>) is
  replaced by \<^verbatim>\<open>repl\<close>; everything else is copied. The replacement text of the
  source holds no \<^verbatim>\<open>$\<close>, so it is inserted literally.
\<close>

function ReplaceAllString :: "string \<Rightarrow> string \<Rightarrow> string" where
  "ReplaceAllString [] repl = []"
| "ReplaceAllString (c # cs) repl =
     (if forbidden c then repl @ ReplaceAllString (dropWhile forbidden cs) repl
      else c # ReplaceAllString cs repl)"
  by pat_completeness auto
termination
  by (relation "measure (\<lambda>(src, repl). length src)")
     (auto simp: length_dropWhile_le less_Suc_eq_le)

definition sanitizeFileName :: "string \<Rightarrow> string" where
  "sanitizeFileName fileName = ReplaceAllString fileName []"

text \<open>
  The forbidden set in the words of the specification: the nine punctuation characters
  and the C0 control characters, code points \<^verbatim>\<open>0x00\<close> to \<^verbatim>\<open>0x1F\<close>.
\<close>

definition spec_forbidden_set :: "char set" where
  "spec_forbidden_set =
     {CHR ''<'', CHR ''>'', CHR '':'', CHR 0x22, CHR ''/'', CHR 0x5C, CHR ''|'', CHR ''?'',
      CHR ''*''} \<union> {c. (of_char c :: nat) \<le> 0x1F}"

section \<open>Data model\<close>

text \<open>
  The struct \<^verbatim>\<open>File\<close> of the source. The XML decoder fills \<^verbatim>\<open>ID\<close>,
  \<^verbatim>\<open>ContentHash\<close> and \<^verbatim>\<open>Filename\<close>; the field \<^verbatim>\<open>Folder\<close> carries the tag
  \<^verbatim>\<open>xml:"-"\<close> and keeps the zero value, the empty string, after decoding.
  The Go map \<^verbatim>\<open>map[string]File\<close> is a partial function from keys to records.
\<close>

record File =
  ID :: string
  ContentHash :: string
  Filename :: string
  Folder :: string

type_synonym file_mapping = "string \<rightharpoonup> File"

text \<open>
  The source store \<^verbatim>\<open>fs.FS\<close> is read-only: \<^verbatim>\<open>Open\<close> gives the bytes of a file
  or fails, \<^verbatim>\<open>ReadDir\<close> gives the names of the entries of a directory or fails.
\<close>

record store =
  Open :: "string \<Rightarrow> string option"
  ReadDir :: "string \<Rightarrow> string list option"

text \<open>
  What the program takes from the Go standard library and from its command line is a
  parameter of the model:
  \<^item> \<^verbatim>\<open>debug\<close>: the flag \<^verbatim>\<open>--debug\<close>;
  \<^item> the XML decoder at the three target shapes of the source: the \<^verbatim>\<open>file\<close>
    elements of \<^verbatim>\<open>files.xml\<close> as triples (id attribute, contenthash, filename), the
    text at \<^verbatim>\<open>folder>name\<close>, the texts at \<^verbatim>\<open>fileref>file>id\<close>; \<open>None\<close> is a
    decoding error;
  \<^item> \<^verbatim>\<open>path.Join\<close>, \<^verbatim>\<open>filepath.Join\<close> and \<^verbatim>\<open>filepath.Dir\<close> (the last two
    depend on the operating system the program is built for);
  \<^item> the paths at which an operation of the destination file system fails for a reason
    that is not the state of the tree (permissions, names the system rejects, a device
    that refuses writes). The file system is deterministic: these sets do not change
    during or between runs.
\<close>

record env =
  debug :: bool
  decodeFiles :: "string \<Rightarrow> (string \<times> string \<times> string) list option"
  decodeFolder :: "string \<Rightarrow> string option"
  decodeInforef :: "string \<Rightarrow> string list option"
  path_Join :: "string list \<Rightarrow> string"
  filepath_Join :: "string list \<Rightarrow> string"
  filepath_Dir :: "string \<Rightarrow> string"
  stat_fault :: "string \<Rightarrow> bool"
  mkdir_fault :: "string \<Rightarrow> bool"
  create_fault :: "string \<Rightarrow> bool"
  copy_fault :: "string \<Rightarrow> bool"

text \<open>The lines the program prints, one constructor for each format string of the source.\<close>

datatype message =
    AddedFile string string string
  | WarnFolderXMLNotFound string
  | ErrParsingFolderXML
  | WarnInforefNotFound string
  | ErrParsingInforef
  | AssignedFolder string string
  | WarnIDNotFound string
  | WarnInvalidHash string
  | WarnSourceNotFound string
  | SkipExists string
  | ErrCheckingFile string
  | ErrCreatingDir string
  | CreatedDir string
  | ErrCheckingDir string
  | ErrCreatingFile string
  | ErrCopying string string
  | CreatedFile string

datatype error = ErrReadingFilesXML | ErrParsingFilesXML | ErrReadingActivities

text \<open>\<^verbatim>\<open>logDebug\<close> prints only in debug mode; \<^verbatim>\<open>fmt.Printf\<close> always prints.\<close>

definition logDebug :: "env \<Rightarrow> message \<Rightarrow> message list \<Rightarrow> message list" where
  "logDebug env msg out = (if debug env then out @ [msg] else out)"

definition Printf :: "message \<Rightarrow> message list \<Rightarrow> message list" where
  "Printf msg out = out @ [msg]"

section \<open>Primary mapping builder\<close>

text \<open>
  The loop of \<^verbatim>\<open>buildFileMapping\<close> over the decoded entries, with the map and the
  printed lines as its state.
\<close>

fun fileMappingLoop ::
  "env \<Rightarrow> (string \<times> string \<times> string) list \<Rightarrow> file_mapping \<times> message list
     \<Rightarrow> file_mapping \<times> message list" where
  "fileMappingLoop env [] st = st"
| "fileMappingLoop env ((i, h, n) # rest) (fileMapping, out) =
     (let file = \<lparr>ID = i, ContentHash = h, Filename = sanitizeFileName n, Folder = []\<rparr> in
      if ID file = [] \<or> ContentHash file = [] \<or> Filename file = ''.''
      then fileMappingLoop env rest (fileMapping, out)
      else fileMappingLoop env rest
             (fileMapping(ID file \<mapsto> file),
              logDebug env (AddedFile (ID file) (ContentHash file) (Filename file)) out))"

definition buildFileMapping ::
  "env \<Rightarrow> store \<Rightarrow> string \<Rightarrow> error + (file_mapping \<times> message list)" where
  "buildFileMapping env source filesXMLPath =
     (case Open source filesXMLPath of
        None \<Rightarrow> Inl ErrReadingFilesXML
      | Some data \<Rightarrow>
          (case decodeFiles env data of
             None \<Rightarrow> Inl ErrParsingFilesXML
           | Some entries \<Rightarrow> Inr (fileMappingLoop env entries (Map.empty, []))))"

section \<open>Folder resolver\<close>

text \<open>The inner loop of \<^verbatim>\<open>processActivitiesFolder\<close> over the file references of one bundle.\<close>

fun assignFolders ::
  "env \<Rightarrow> string \<Rightarrow> string list \<Rightarrow> file_mapping \<times> message list
     \<Rightarrow> file_mapping \<times> message list" where
  "assignFolders env folderName [] st = st"
| "assignFolders env folderName (ref # refs) (fileMapping, out) =
     (case fileMapping ref of
        Some file \<Rightarrow>
          assignFolders env folderName refs
            (fileMapping(ref \<mapsto> file\<lparr>Folder := folderName\<rparr>),
             logDebug env (AssignedFolder ref folderName) out)
      | None \<Rightarrow>
          assignFolders env folderName refs
            (fileMapping, logDebug env (WarnIDNotFound ref) out))"

text \<open>The body of the outer loop, for one entry of the activities directory.\<close>

definition processDir ::
  "env \<Rightarrow> store \<Rightarrow> string \<Rightarrow> string \<Rightarrow> file_mapping \<times> message list
     \<Rightarrow> file_mapping \<times> message list" where
  "processDir env source activitiesFolder name st =
     (if \<not> prefix ''folder_'' name then st
      else
        (let folderPath = path_Join env [activitiesFolder, name];
             folderXMLPath = path_Join env [folderPath, ''folder.xml'']
         in (case Open source folderXMLPath of
               None \<Rightarrow> (fst st, Printf (WarnFolderXMLNotFound folderPath) (snd st))
             | Some folderFile \<Rightarrow>
                 (case decodeFolder env folderFile of
                    None \<Rightarrow> (fst st, Printf ErrParsingFolderXML (snd st))
                  | Some FolderName \<Rightarrow>
                      (let folderName = sanitizeFileName FolderName;
                           inforefXMLPath = path_Join env [folderPath, ''inforef.xml'']
                       in (case Open source inforefXMLPath of
                             None \<Rightarrow> (fst st, Printf (WarnInforefNotFound folderPath) (snd st))
                           | Some inforefFile \<Rightarrow>
                               (case decodeInforef env inforefFile of
                                  None \<Rightarrow> (fst st, Printf ErrParsingInforef (snd st))
                                | Some refs \<Rightarrow> assignFolders env folderName refs st)))))))"

fun processDirs ::
  "env \<Rightarrow> store \<Rightarrow> string \<Rightarrow> string list \<Rightarrow> file_mapping \<times> message list
     \<Rightarrow> file_mapping \<times> message list" where
  "processDirs env source activitiesFolder [] st = st"
| "processDirs env source activitiesFolder (name # names) st =
     processDirs env source activitiesFolder names
       (processDir env source activitiesFolder name st)"

text \<open>
  \<^verbatim>\<open>processActivitiesFolder\<close> changes the map in place and returns an error value;
  the model returns the error (\<open>None\<close> for \<^verbatim>\<open>nil\<close>) with the map and the printed
  lines after the call.
\<close>

definition processActivitiesFolder ::
  "env \<Rightarrow> store \<Rightarrow> string \<Rightarrow> file_mapping \<times> message list
     \<Rightarrow> error option \<times> file_mapping \<times> message list" where
  "processActivitiesFolder env source activitiesFolder st =
     (case ReadDir source activitiesFolder of
        None \<Rightarrow> (Some ErrReadingActivities, st)
      | Some dirs \<Rightarrow> (None, processDirs env source activitiesFolder dirs st))"

text \<open>
  The ids a bundle refers to: those listed by its \<^verbatim>\<open>inforef.xml\<close>, none when that
  document cannot be opened or decoded.
\<close>

definition referencedIds :: "env \<Rightarrow> store \<Rightarrow> string \<Rightarrow> string \<Rightarrow> string set" where
  "referencedIds env source activitiesFolder name =
     (case Open source
             (path_Join env [path_Join env [activitiesFolder, name], ''inforef.xml'']) of
        None \<Rightarrow> {}
      | Some inforefFile \<Rightarrow>
          (case decodeInforef env inforefFile of None \<Rightarrow> {} | Some refs \<Rightarrow> set refs))"

section \<open>Content materializer\<close>

text \<open>
  The destination file system: the regular files with their contents and the
  directories, both by path. \<^verbatim>\<open>os.Stat\<close> has three outcomes the source tells apart:
  no error, an error for which \<^verbatim>\<open>os.IsNotExist\<close> holds, any other error.
\<close>

record world =
  files :: "string \<rightharpoonup> string"
  dirs :: "string set"

datatype stat_result = StatOk | StatNotExist | StatErr

text \<open>
  The operations of package \<^verbatim>\<open>os\<close> the source calls, on this file system:
  \<^item> \<^verbatim>\<open>Stat\<close> fails at a faulty path and below a regular file, succeeds at a file or
    directory, and reports not-exist elsewhere;
  \<^item> \<^verbatim>\<open>MkdirAll\<close> fails at a faulty path and where a regular file has the name, and
    makes the directory otherwise (missing ancestors are not recorded);
  \<^item> \<^verbatim>\<open>Create\<close> fails at a faulty path, on a directory and where the parent is no
    directory; otherwise the path holds an empty regular file afterwards, whatever
    it held before: \<^verbatim>\<open>Create\<close> truncates;
  \<^item> \<^verbatim>\<open>io.Copy\<close> into the created file fails at a faulty path, leaving the file as
    \<^verbatim>\<open>Create\<close> left it, and writes the whole payload otherwise.
  A failed operation leaves the file system as it was. The Boolean of a result is
  \<^verbatim>\<open>err == nil\<close>.
\<close>

definition os_Stat :: "env \<Rightarrow> world \<Rightarrow> string \<Rightarrow> stat_result" where
  "os_Stat env w p =
     (if stat_fault env p \<or> filepath_Dir env p \<in> dom (files w) then StatErr
      else if p \<in> dom (files w) \<or> p \<in> dirs w then StatOk
      else StatNotExist)"

definition os_MkdirAll :: "env \<Rightarrow> world \<Rightarrow> string \<Rightarrow> bool \<times> world" where
  "os_MkdirAll env w d =
     (if mkdir_fault env d \<or> d \<in> dom (files w) then (False, w)
      else (True, w\<lparr>dirs := insert d (dirs w)\<rparr>))"

definition os_Create :: "env \<Rightarrow> world \<Rightarrow> string \<Rightarrow> bool \<times> world" where
  "os_Create env w p =
     (if create_fault env p \<or> p \<in> dirs w \<or> filepath_Dir env p \<notin> dirs w then (False, w)
      else (True, w\<lparr>files := (files w)(p \<mapsto> [])\<rparr>))"

definition io_Copy :: "env \<Rightarrow> world \<Rightarrow> string \<Rightarrow> string \<Rightarrow> bool \<times> world" where
  "io_Copy env w p payload =
     (if copy_fault env p then (False, w)
      else (True, w\<lparr>files := (files w)(p \<mapsto> payload)\<rparr>))"

text \<open>
  The slice expression \<^verbatim>\<open>s[:n]\<close> of Go panics when \<^verbatim>\<open>n\<close> exceeds the length
  of the string; \<open>None\<close> is the panic.
\<close>

definition slice_to :: "string \<Rightarrow> nat \<Rightarrow> string option" where
  "slice_to s n = (if n \<le> length s then Some (take n s) else None)"

text \<open>
  The state of one run of \<^verbatim>\<open>copyFiles\<close>: the destination file system, the counter
  \<^verbatim>\<open>copiedFiles\<close>, the printed lines, and the calls made to the source store and to the
  operating system, in order. The counter is at most the number of records of the
  map, so the machine integer of the source never wraps and is a natural number here.
\<close>

datatype call =
    CallOpen string
  | CallStat string
  | CallMkdirAll string
  | CallCreate string
  | CallCopy string string

record copy_state =
  dest :: world
  copiedFiles :: nat
  printed :: "message list"
  calls :: "call list"

definition say :: "message \<Rightarrow> copy_state \<Rightarrow> copy_state" where
  "say msg st = st\<lparr>printed := Printf msg (printed st)\<rparr>"

definition called :: "call \<Rightarrow> copy_state \<Rightarrow> copy_state" where
  "called c st = st\<lparr>calls := calls st @ [c]\<rparr>"

text \<open>
  The part of the loop body that ensures the destination directory exists; the
  Boolean is \<open>False\<close> where the source reaches \<^verbatim>\<open>continue\<close>.
\<close>

definition ensureDir :: "env \<Rightarrow> string \<Rightarrow> copy_state \<Rightarrow> bool \<times> copy_state" where
  "ensureDir env destinationDir st0 =
     (let st = called (CallStat destinationDir) st0 in
      case os_Stat env (dest st) destinationDir of
        StatNotExist \<Rightarrow>
          (let st = called (CallMkdirAll destinationDir) st in
           case os_MkdirAll env (dest st) destinationDir of
             (False, w) \<Rightarrow> (False, say (ErrCreatingDir destinationDir) (st\<lparr>dest := w\<rparr>))
           | (True, w) \<Rightarrow> (True, say (CreatedDir destinationDir) (st\<lparr>dest := w\<rparr>)))
      | StatErr \<Rightarrow> (False, say (ErrCheckingDir destinationDir) st)
      | StatOk \<Rightarrow> (True, st))"

text \<open>The part of the loop body from \<^verbatim>\<open>os.Create\<close> to the increment of the counter.\<close>

definition writeFile ::
  "env \<Rightarrow> string \<Rightarrow> string \<Rightarrow> string \<Rightarrow> copy_state \<Rightarrow> copy_state" where
  "writeFile env sourceFilePath sourceFile destinationPath st0 =
     (let st = called (CallCreate destinationPath) st0 in
      case os_Create env (dest st) destinationPath of
        (False, w) \<Rightarrow> say (ErrCreatingFile destinationPath) (st\<lparr>dest := w\<rparr>)
      | (True, w) \<Rightarrow>
          (let st = called (CallCopy sourceFilePath destinationPath) (st\<lparr>dest := w\<rparr>) in
           case io_Copy env (dest st) destinationPath sourceFile of
             (False, w) \<Rightarrow> say (ErrCopying sourceFilePath destinationPath) (st\<lparr>dest := w\<rparr>)
           | (True, w) \<Rightarrow>
               say (CreatedFile destinationPath)
                 (st\<lparr>dest := w, copiedFiles := copiedFiles st + 1\<rparr>)))"

text \<open>The loop body of \<^verbatim>\<open>copyFiles\<close> for one record; \<open>None\<close> is a run-time panic.\<close>

definition copyFile ::
  "env \<Rightarrow> store \<Rightarrow> string \<Rightarrow> File \<Rightarrow> copy_state \<Rightarrow> copy_state option" where
  "copyFile env source destinationFolder file st0 =
     (if length (ContentHash file) < 2 then Some (say (WarnInvalidHash (ID file)) st0)
      else
        (case slice_to (ContentHash file) 2 of
           None \<Rightarrow> None
         | Some hashPrefix \<Rightarrow>
             (let sourceFilePath = path_Join env [''files'', hashPrefix, ContentHash file];
                  st = called (CallOpen sourceFilePath) st0
              in (case Open source sourceFilePath of
                    None \<Rightarrow> Some (say (WarnSourceNotFound sourceFilePath) st)
                  | Some sourceFile \<Rightarrow>
                      (let destinationPath =
                             (if Folder file = []
                              then filepath_Join env [destinationFolder, Filename file]
                              else filepath_Join env
                                     [destinationFolder, Folder file, Filename file]);
                           st = called (CallStat destinationPath) st
                       in (case os_Stat env (dest st) destinationPath of
                             StatOk \<Rightarrow> Some (say (SkipExists destinationPath) st)
                           | StatErr \<Rightarrow> Some (say (ErrCheckingFile destinationPath) st)
                           | StatNotExist \<Rightarrow>
                               (case ensureDir env (filepath_Dir env destinationPath) st of
                                  (False, st) \<Rightarrow> Some st
                                | (True, st) \<Rightarrow>
                                    Some (writeFile env sourceFilePath sourceFile
                                            destinationPath st))))))))"

text \<open>
  \<^verbatim>\<open>for _, file := range fileMapping\<close> visits every entry of the map once, in an order
  the Go runtime chooses. The order is the list \<open>order\<close> of keys, a parameter of the
  loop; a key outside the map contributes nothing.
\<close>

fun copyLoop ::
  "env \<Rightarrow> store \<Rightarrow> string \<Rightarrow> file_mapping \<Rightarrow> string list \<Rightarrow> copy_state
     \<Rightarrow> copy_state option" where
  "copyLoop env source destinationFolder fileMapping [] st = Some st"
| "copyLoop env source destinationFolder fileMapping (k # ks) st =
     (case fileMapping k of
        None \<Rightarrow> copyLoop env source destinationFolder fileMapping ks st
      | Some file \<Rightarrow>
          (case copyFile env source destinationFolder file st of
             None \<Rightarrow> None
           | Some st' \<Rightarrow> copyLoop env source destinationFolder fileMapping ks st'))"

text \<open>
  \<^verbatim>\<open>copyFiles\<close> starts the counter at zero and returns it; the model returns the whole
  final state, of which \<^const>\<open>copiedFiles\<close> is the returned count and \<^const>\<open>dest\<close> the
  destination file system after the run.
\<close>

definition copyFiles ::
  "env \<Rightarrow> store \<Rightarrow> string \<Rightarrow> file_mapping \<Rightarrow> string list \<Rightarrow> world
     \<Rightarrow> copy_state option" where
  "copyFiles env source destinationFolder fileMapping order w =
     copyLoop env source destinationFolder fileMapping order
       \<lparr>dest = w, copiedFiles = 0, printed = [], calls = []\<rparr>"

section \<open>Notions used in the proofs about the content materializer\<close>

text \<open>
  The two paths the loop body of \<^verbatim>\<open>copyFiles\<close> computes for a record, as functions
  of the record: the source path (for a hash of at least two characters, where the
  slice is its first two characters) and the destination path.
\<close>

definition sourceFilePath :: "env \<Rightarrow> File \<Rightarrow> string" where
  "sourceFilePath env file = path_Join env [''files'', take 2 (ContentHash file), ContentHash file]"

definition destinationPath :: "env \<Rightarrow> string \<Rightarrow> File \<Rightarrow> string" where
  "destinationPath env destinationFolder file =
     (if Folder file = [] then filepath_Join env [destinationFolder, Filename file]
      else filepath_Join env [destinationFolder, Folder file, Filename file])"

text \<open>
  A record is quiet in a file system when the loop body ends for it before anything
  is written: the hash is too short, the payload is missing, the destination path
  exists or cannot be examined, the directory cannot be examined or made, or the file
  cannot be created.
\<close>

definition quiet :: "env \<Rightarrow> store \<Rightarrow> string \<Rightarrow> File \<Rightarrow> world \<Rightarrow> bool" where
  "quiet env source destinationFolder file w =
     (let p = destinationPath env destinationFolder file; dir = filepath_Dir env p in
      length (ContentHash file) < 2
      \<or> Open source (sourceFilePath env file) = None
      \<or> os_Stat env w p \<noteq> StatNotExist
      \<or> os_Stat env w dir = StatErr
      \<or> (os_Stat env w dir = StatNotExist \<and> \<not> fst (os_MkdirAll env w dir))
      \<or> (os_Stat env w dir = StatOk \<and> \<not> fst (os_Create env w p)))"

text \<open>
  The order in which a file system grows during a run: the files that were there keep
  their contents, the directories that were there stay, and a directory that is new
  was made by \<^verbatim>\<open>MkdirAll\<close>, at a path that is not faulty and held no file.
\<close>

definition world_le :: "env \<Rightarrow> world \<Rightarrow> world \<Rightarrow> bool" where
  "world_le env w w' =
     (files w \<subseteq>\<^sub>m files w' \<and> dirs w \<subseteq> dirs w'
      \<and> (\<forall>dir \<in> dirs w' - dirs w. \<not> mkdir_fault env dir \<and> dir \<notin> dom (files w)))"

section \<open>A sample archive\<close>

text \<open>
  A small archive on which the model is evaluated. Its \<^verbatim>\<open>files.xml\<close> lists the file
  of the scenarios of the specification (id \<^verbatim>\<open>1\<close>, name \<^verbatim>\<open>a/b.txt\<close>), a file with a
  one-character hash, a file whose name holds only a forbidden character, an entry
  without id, an entry without hash, an entry whose name sanitizes to a single dot, and
  two entries with the id \<^verbatim>\<open>6\<close>. The bundle \<^verbatim>\<open>folder_5\<close> is named
  \<^verbatim>\<open>My:Folder\<close> and refers to the ids \<^verbatim>\<open>1\<close> and \<^verbatim>\<open>9\<close>, of which the second is
  in no entry; the bundle \<^verbatim>\<open>folder_8\<close> is named \<^verbatim>\<open>Other\<close> and refers to the id
  \<^verbatim>\<open>6\<close>. The documents are decoded by table. Paths are joined with a slash, and the
  directory of a path is what precedes its last slash, which is what the library
  functions give on the clean, non-empty path elements used here.
\<close>

definition sample_entries :: "(string \<times> string \<times> string) list" where
  "sample_entries =
     [(''1'', ''da39a3ee'', ''a/b.txt''), (''2'', ''x'', ''c.txt''), (''3'', ''ab12'', ''?''),
      ([], ''ff00'', ''d.txt''), (''4'', [], ''e.txt''), (''5'', ''cd34'', ''./''),
      (''6'', ''aa11'', ''old.txt''), (''6'', ''bb22'', ''new.txt'')]"

fun sample_Join :: "string list \<Rightarrow> string" where
  "sample_Join [] = []"
| "sample_Join [x] = x"
| "sample_Join (x # y # zs) = x @ ''/'' @ sample_Join (y # zs)"

definition sample_Dir :: "string \<Rightarrow> string" where
  "sample_Dir p = rev (drop 1 (dropWhile (\<lambda>c. c \<noteq> CHR ''/'') (rev p)))"

definition sample_env :: env where
  "sample_env =
     \<lparr>debug = False,
      decodeFiles = map_of [(''<files/>'', sample_entries)],
      decodeFolder = map_of [(''<folder 5/>'', ''My:Folder''), (''<folder 8/>'', ''Other'')],
      decodeInforef = map_of [(''<inforef 5/>'', [''1'', ''9'']), (''<inforef 8/>'', [''6''])],
      path_Join = sample_Join,
      filepath_Join = sample_Join,
      filepath_Dir = sample_Dir,
      stat_fault = (\<lambda>p. False),
      mkdir_fault = (\<lambda>p. False),
      create_fault = (\<lambda>p. False),
      copy_fault = (\<lambda>p. False)\<rparr>"

definition sample_source :: store where
  "sample_source =
     \<lparr>Open = map_of
        [(''files.xml'', ''<files/>''),
         (''activities/folder_5/folder.xml'', ''<folder 5/>''),
         (''activities/folder_5/inforef.xml'', ''<inforef 5/>''),
         (''activities/folder_8/folder.xml'', ''<folder 8/>''),
         (''activities/folder_8/inforef.xml'', ''<inforef 8/>''),
         (''files/da/da39a3ee'', ''payload 1''),
         (''files/bb/bb22'', ''payload 6'')],
      ReadDir = map_of [(''activities'', [''folder_5'', ''folder_8'', ''page_7''])]\<rparr>"

text \<open>The record of id \<^verbatim>\<open>1\<close> after folder resolution, and an empty destination.\<close>

definition sample_record :: File where
  "sample_record =
     \<lparr>ID = ''1'', ContentHash = ''da39a3ee'', Filename = ''ab.txt'', Folder = ''MyFolder''\<rparr>"

definition empty_world :: world where
  "empty_world = \<lparr>files = Map.empty, dirs = {}\<rparr>"

section \<open>Properties of the sanitizer\<close>

lemma forbidden_iff_spec: "forbidden c \<longleftrightarrow> c \<in> spec_forbidden_set"
  by (auto simp: forbidden_def forbidden_class_def spec_forbidden_set_def)

lemma ReplaceAllString_empty:
  "ReplaceAllString src [] = filter (\<lambda>c. \<not> forbidden c) src"
proof (induction src "[] :: string" rule: ReplaceAllString.induct)
  case 1
  show ?case by simp
next
  case (2 c cs)
  show ?case
  proof (cases "forbidden c")
    case True
    have "filter (\<lambda>c. \<not> forbidden c) (dropWhile forbidden cs) = filter (\<lambda>c. \<not> forbidden c) cs"
      by (induction cs) auto
    with True 2 show ?thesis by simp
  next
    case False
    with 2 show ?thesis by simp
  qed
qed

lemma sanitizeFileName_filter:
  "sanitizeFileName s = filter (\<lambda>c. \<not> forbidden c) s"
  by (simp add: sanitizeFileName_def ReplaceAllString_empty)


text \<open>
  Claim C6. Sanitizing twice gives what sanitizing once gives. The result is a
  subsequence of the input, and the characters of the input are those of the result
  together with the forbidden characters of the input, so only forbidden characters
  were removed and none was introduced.
\<close>

theorem sanitize_idempotent_subsequence:
  "sanitizeFileName (sanitizeFileName s) = sanitizeFileName s
   \<and> subseq (sanitizeFileName s) s
   \<and> mset s = mset (sanitizeFileName s) + mset (filter forbidden s)"
  by (simp add: sanitizeFileName_filter)

theorem sanitize_idempotent_subsequence_witness:
  "sanitizeFileName (sanitizeFileName ''My:Folder'') = ''MyFolder''
   \<and> subseq ''MyFolder'' ''My:Folder''"
  using sanitize_idempotent_subsequence [of "''My:Folder''"]
  by (simp add: sanitizeFileName_filter forbidden_def forbidden_class_def)

text \<open>
  Claim C7. The sanitizer is a total function of its argument alone, and its result
  is the input with exactly the members of the forbidden set of the specification
  deleted: the other characters stay, in order, and nothing is put in place of a
  deleted character or of a run of deleted characters.
\<close>

theorem sanitize_deletes_exactly_forbidden:
  "sanitizeFileName s = filter (\<lambda>c. c \<notin> spec_forbidden_set) s"
  by (simp add: sanitizeFileName_filter forbidden_iff_spec)

theorem sanitize_deletes_exactly_forbidden_witness:
  "sanitizeFileName ''a/b.txt'' = ''ab.txt''"
  using sanitize_deletes_exactly_forbidden [of "''a/b.txt''"]
  by (simp add: spec_forbidden_set_def)

section \<open>Properties of the primary mapping builder\<close>

lemmas sample_simps =
  sample_env_def sample_source_def sample_entries_def sample_Dir_def sample_record_def
  empty_world_def sanitizeFileName_filter forbidden_def forbidden_class_def
  logDebug_def Printf_def Let_def

lemma sample_buildFileMapping:
  "buildFileMapping sample_env sample_source ''files.xml'' =
     Inr (fileMappingLoop sample_env sample_entries (Map.empty, []))"
  by (simp add: buildFileMapping_def sample_env_def sample_source_def)

lemma fileMappingLoop_lookup:
  "fst (fileMappingLoop env entries (m0, out0)) k =
     (case filter (\<lambda>(i, h, n). i = k \<and> i \<noteq> [] \<and> h \<noteq> [] \<and> sanitizeFileName n \<noteq> ''.'') entries of
        [] \<Rightarrow> m0 k
      | e # es \<Rightarrow> (case last (e # es) of (i, h, n) \<Rightarrow>
          Some \<lparr>ID = i, ContentHash = h, Filename = sanitizeFileName n, Folder = []\<rparr>))"
  (is "_ = (case filter ?P entries of [] \<Rightarrow> m0 k | e # es \<Rightarrow> ?mk (last (e # es)))")
proof (induction entries arbitrary: m0 out0)
  case Nil
  show ?case by simp
next
  case (Cons e entries)
  obtain i h n where e: "e = (i, h, n)" by (cases e)
  let ?file = "\<lparr>ID = i, ContentHash = h, Filename = sanitizeFileName n, Folder = []\<rparr>"
  show ?case
  proof (cases "i = [] \<or> h = [] \<or> sanitizeFileName n = ''.''")
    case True
    then have "fileMappingLoop env (e # entries) (m0, out0) = fileMappingLoop env entries (m0, out0)"
      by (auto simp: e Let_def)
    moreover from True have "filter ?P (e # entries) = filter ?P entries"
      by (auto simp: e)
    ultimately show ?thesis
      using Cons.IH [of m0 out0] by simp
  next
    case False
    then have step: "fileMappingLoop env (e # entries) (m0, out0) =
        fileMappingLoop env entries
          (m0(i \<mapsto> ?file), logDebug env (AddedFile i h (sanitizeFileName n)) out0)"
      by (auto simp: e Let_def)
    note ih = Cons.IH [of "m0(i \<mapsto> ?file)" "logDebug env (AddedFile i h (sanitizeFileName n)) out0"]
    show ?thesis
    proof (cases "i = k")
      case True
      with False have f: "filter ?P (e # entries) = e # filter ?P entries"
        by (auto simp: e)
      show ?thesis
        unfolding step f ih using True
        by (cases "filter ?P entries") (simp_all add: e)
    next
      case neq: False
      then have f: "filter ?P (e # entries) = filter ?P entries"
        by (auto simp: e)
      show ?thesis
        unfolding step f ih using neq
        by (cases "filter ?P entries") simp_all
    qed
  qed
qed

text \<open>
  Claim C2. For a primary document that opens and decodes, \<^verbatim>\<open>buildFileMapping\<close>
  returns a map, and the map at a key \<open>k\<close> is decided by the entries of the document
  that have the id \<open>k\<close>, a non-empty id, a non-empty hash and a sanitized name other
  than a single dot: the key is absent when there is no such entry, and otherwise it
  holds one record, made from the last such entry of the document, with the name
  sanitized and the folder empty.
\<close>

theorem buildFileMapping_exactly_valid_last_wins:
  assumes "Open source filesXMLPath = Some data" and "decodeFiles env data = Some entries"
  shows "\<exists>m out.
           buildFileMapping env source filesXMLPath = Inr (m, out) \<and>
           (\<forall>k. m k =
              (case filter (\<lambda>(i, h, n). i = k \<and> i \<noteq> [] \<and> h \<noteq> [] \<and> sanitizeFileName n \<noteq> ''.'')
                      entries of
                 [] \<Rightarrow> None
               | e # es \<Rightarrow> (case last (e # es) of (i, h, n) \<Rightarrow>
                   Some \<lparr>ID = i, ContentHash = h, Filename = sanitizeFileName n, Folder = []\<rparr>)))"
proof -
  let ?r = "fileMappingLoop env entries (Map.empty, [])"
  have "buildFileMapping env source filesXMLPath = Inr (fst ?r, snd ?r)"
    using assms by (simp add: buildFileMapping_def)
  moreover have "\<forall>k. fst ?r k =
              (case filter (\<lambda>(i, h, n). i = k \<and> i \<noteq> [] \<and> h \<noteq> [] \<and> sanitizeFileName n \<noteq> ''.'')
                      entries of
                 [] \<Rightarrow> None
               | e # es \<Rightarrow> (case last (e # es) of (i, h, n) \<Rightarrow>
                   Some \<lparr>ID = i, ContentHash = h, Filename = sanitizeFileName n, Folder = []\<rparr>))"
    by (simp add: fileMappingLoop_lookup)
  ultimately show ?thesis by blast
qed

theorem buildFileMapping_exactly_valid_last_wins_witness:
  "buildFileMapping sample_env sample_source ''files.xml''
     = Inr (fileMappingLoop sample_env sample_entries (Map.empty, []))
   \<and> fst (fileMappingLoop sample_env sample_entries (Map.empty, [])) ''6''
     = Some \<lparr>ID = ''6'', ContentHash = ''bb22'', Filename = ''new.txt'', Folder = []\<rparr>
   \<and> fst (fileMappingLoop sample_env sample_entries (Map.empty, [])) ''5'' = None"
proof -
  let ?r = "fileMappingLoop sample_env sample_entries (Map.empty, [])"
  have o: "Open sample_source ''files.xml'' = Some ''<files/>''"
    by (simp add: sample_source_def)
  have d: "decodeFiles sample_env ''<files/>'' = Some sample_entries"
    by (simp add: sample_env_def)
  from buildFileMapping_exactly_valid_last_wins [OF o d]
  obtain m out where
    run: "buildFileMapping sample_env sample_source ''files.xml'' = Inr (m, out)"
    and m: "\<And>k. m k =
              (case filter (\<lambda>(i, h, n). i = k \<and> i \<noteq> [] \<and> h \<noteq> [] \<and> sanitizeFileName n \<noteq> ''.'')
                      sample_entries of
                 [] \<Rightarrow> None
               | e # es \<Rightarrow> (case last (e # es) of (i, h, n) \<Rightarrow>
                   Some \<lparr>ID = i, ContentHash = h, Filename = sanitizeFileName n, Folder = []\<rparr>))"
    by blast
  from run have r: "?r = (m, out)"
    by (simp add: sample_buildFileMapping)
  have "m ''6'' =
      Some \<lparr>ID = ''6'', ContentHash = ''bb22'', Filename = ''new.txt'', Folder = []\<rparr>"
    unfolding m by (simp add: sample_simps)
  moreover have "m ''5'' = None"
    unfolding m by (simp add: sample_simps)
  ultimately show ?thesis
    using sample_buildFileMapping r by simp
qed





section \<open>Properties of the folder resolver\<close>

lemma assignFolders_result:
  "assignFolders env folderName refs (m, out) =
     ((\<lambda>k. if k \<in> set refs then map_option (\<lambda>f. f\<lparr>Folder := folderName\<rparr>) (m k) else m k),
      out @ (if debug env
             then map (\<lambda>r. if r \<in> dom m then AssignedFolder r folderName else WarnIDNotFound r) refs
             else []))"
proof (induction refs arbitrary: m out)
  case Nil
  show ?case by simp
next
  case (Cons r refs)
  show ?case
  proof (cases "m r")
    case None
    then show ?thesis
      by (auto simp: Cons.IH logDebug_def fun_eq_iff domIff)
  next
    case (Some f)
    then show ?thesis
      by (auto simp: Cons.IH logDebug_def fun_eq_iff domIff map_option_case split: option.splits)
  qed
qed

lemma processDir_effect:
  "\<exists>A nm. A \<subseteq> referencedIds env source act name \<and>
     (\<forall>m out. fst (processDir env source act name (m, out)) =
        (\<lambda>k. if k \<in> A then map_option (\<lambda>f. f\<lparr>Folder := nm\<rparr>) (m k) else m k))"
proof -
  let ?ok = "\<lambda>A nm. A \<subseteq> referencedIds env source act name \<and>
     (\<forall>m out. fst (processDir env source act name (m, out)) =
        (\<lambda>k. if k \<in> A then map_option (\<lambda>f. f\<lparr>Folder := nm\<rparr>) (m k) else m k))"
  let ?folderPath = "path_Join env [act, name]"
  have skip: "?ok {} []" if "\<And>m out. fst (processDir env source act name (m, out)) = m"
    using that by simp
  show ?thesis
  proof (cases "prefix ''folder_'' name")
    case False
    then show ?thesis
      by (intro exI [of _ "{}"] exI [of _ "[]"] skip) (simp add: processDir_def)
  next
    case pre: True
    show ?thesis
    proof (cases "Open source (path_Join env [?folderPath, ''folder.xml''])")
      case None
      with pre show ?thesis
        by (intro exI [of _ "{}"] exI [of _ "[]"] skip) (simp add: processDir_def Let_def)
    next
      case ff: (Some folderFile)
      show ?thesis
      proof (cases "decodeFolder env folderFile")
        case None
        with pre ff show ?thesis
          by (intro exI [of _ "{}"] exI [of _ "[]"] skip) (simp add: processDir_def Let_def)
      next
        case fn: (Some FolderName)
        show ?thesis
        proof (cases "Open source (path_Join env [?folderPath, ''inforef.xml''])")
          case None
          with pre ff fn show ?thesis
            by (intro exI [of _ "{}"] exI [of _ "[]"] skip) (simp add: processDir_def Let_def)
        next
          case rf: (Some inforefFile)
          show ?thesis
          proof (cases "decodeInforef env inforefFile")
            case None
            with pre ff fn rf show ?thesis
              by (intro exI [of _ "{}"] exI [of _ "[]"] skip) (simp add: processDir_def Let_def)
          next
            case (Some refs)
            with pre ff fn rf have "?ok (set refs) (sanitizeFileName FolderName)"
              by (simp add: processDir_def Let_def assignFolders_result referencedIds_def)
            then show ?thesis by blast
          qed
        qed
      qed
    qed
  qed
qed





text \<open>
  Claim C4, as the code has it. For a bundle whose two documents open and decode,
  the body of the loop sets the folder of every record whose id the bundle refers to
  to the sanitized folder name, and changes nothing else of the mapping: a referred id
  that is not in the mapping adds no entry and changes no record. The line about such
  an id, like the line about an assigned folder, goes through \<^verbatim>\<open>logDebug\<close>: it is
  printed in debug mode and not otherwise. The error value of
  \<^verbatim>\<open>processActivitiesFolder\<close> depends on the listing of the directory alone.
\<close>

theorem processDir_assigns_folder:
  assumes "prefix ''folder_'' name"
    and "Open source (path_Join env [path_Join env [act, name], ''folder.xml'']) = Some folderFile"
    and "decodeFolder env folderFile = Some FolderName"
    and "Open source (path_Join env [path_Join env [act, name], ''inforef.xml''])
           = Some inforefFile"
    and "decodeInforef env inforefFile = Some refs"
  shows "processDir env source act name (m, out) =
           ((\<lambda>k. if k \<in> set refs
                 then map_option (\<lambda>f. f\<lparr>Folder := sanitizeFileName FolderName\<rparr>) (m k)
                 else m k),
            out @ (if debug env
                   then map (\<lambda>r. if r \<in> dom m
                                  then AssignedFolder r (sanitizeFileName FolderName)
                                  else WarnIDNotFound r) refs
                   else []))
         \<and> fst (processActivitiesFolder env source act (m, out)) =
             (case ReadDir source act of None \<Rightarrow> Some ErrReadingActivities | Some names \<Rightarrow> None)"
  using assms
  by (simp add: processDir_def Let_def assignFolders_result processActivitiesFolder_def
           split: option.splits)

theorem processDir_assigns_folder_witness:
  "processDir (sample_env\<lparr>debug := True\<rparr>) sample_source ''activities'' ''folder_5''
     ([''1'' \<mapsto> \<lparr>ID = ''1'', ContentHash = ''da39a3ee'', Filename = ''ab.txt'', Folder = []\<rparr>], [])
   = ([''1'' \<mapsto> sample_record],
      [AssignedFolder ''1'' ''MyFolder'', WarnIDNotFound ''9''])"
proof -
  let ?env = "sample_env\<lparr>debug := True\<rparr>"
  have 1: "prefix ''folder_'' ''folder_5''"
    by simp
  have 2: "Open sample_source
             (path_Join ?env [path_Join ?env [''activities'', ''folder_5''], ''folder.xml''])
           = Some ''<folder 5/>''"
    by (simp add: sample_env_def sample_source_def)
  have 3: "decodeFolder ?env ''<folder 5/>'' = Some ''My:Folder''"
    by (simp add: sample_env_def)
  have 4: "Open sample_source
             (path_Join ?env [path_Join ?env [''activities'', ''folder_5''], ''inforef.xml''])
           = Some ''<inforef 5/>''"
    by (simp add: sample_env_def sample_source_def)
  have 5: "decodeInforef ?env ''<inforef 5/>'' = Some [''1'', ''9'']"
    by (simp add: sample_env_def)
  have s: "sanitizeFileName ''My:Folder'' = ''MyFolder''"
    by (simp add: sanitizeFileName_filter forbidden_def forbidden_class_def)
  show ?thesis
    using processDir_assigns_folder [OF 1 2 3 4 5,
      of "[''1'' \<mapsto> \<lparr>ID = ''1'', ContentHash = ''da39a3ee'', Filename = ''ab.txt'', Folder = []\<rparr>]"
         "[]"]
    by (auto simp: s sample_record_def sample_env_def fun_eq_iff)
qed

text \<open>
  Claim C4 as stated fails without the debug flag: the bundle \<^verbatim>\<open>folder_5\<close> of the
  sample archive refers to the id \<^verbatim>\<open>9\<close>, which is not in the mapping, and folder
  resolution prints nothing.
\<close>

theorem processActivitiesFolder_dangling_silent_counterexample:
  "fst (fileMappingLoop sample_env sample_entries (Map.empty, [])) ''9'' = None
   \<and> snd (snd (processActivitiesFolder sample_env sample_source ''activities''
                 (fileMappingLoop sample_env sample_entries (Map.empty, [])))) = []"
  by (simp add: processActivitiesFolder_def processDir_def assignFolders_result sample_simps
           split: prod.splits)

lemma processDirs_frame:
  "map_option (\<lambda>f. (ID f, ContentHash f, Filename f)) (fst (processDirs env source act names st) k)
   = map_option (\<lambda>f. (ID f, ContentHash f, Filename f)) (fst st k)"
proof (induction names arbitrary: st)
  case Nil
  show ?case by simp
next
  case (Cons name names)
  obtain A nm where
    eff: "\<And>m out. fst (processDir env source act name (m, out)) =
        (\<lambda>k. if k \<in> A then map_option (\<lambda>f. f\<lparr>Folder := nm\<rparr>) (m k) else m k)"
    using processDir_effect [of env source act name] by blast
  have "map_option (\<lambda>f. (ID f, ContentHash f, Filename f))
          (fst (processDir env source act name st) k)
        = map_option (\<lambda>f. (ID f, ContentHash f, Filename f)) (fst st k)"
    using eff [of "fst st" "snd st"] by (simp add: option.map_comp comp_def)
  then show ?case
    by (simp add: Cons.IH)
qed

text \<open>
  Claim C10. Folder resolution, whether it returns an error or not, leaves the key
  set of the mapping as it was, and every record keeps its id, its content hash and
  its file name: only the folder of a record can differ afterwards.
\<close>

theorem processActivitiesFolder_frame:
  "dom (fst (snd (processActivitiesFolder env source act (m, out)))) = dom m
   \<and> map_option (\<lambda>f. (ID f, ContentHash f, Filename f))
        (fst (snd (processActivitiesFolder env source act (m, out))) k)
     = map_option (\<lambda>f. (ID f, ContentHash f, Filename f)) (m k)"
proof -
  let ?m' = "fst (snd (processActivitiesFolder env source act (m, out)))"
  have frame: "map_option (\<lambda>f. (ID f, ContentHash f, Filename f)) (?m' k)
      = map_option (\<lambda>f. (ID f, ContentHash f, Filename f)) (m k)" for k
    using processDirs_frame [of env source act _ "(m, out)" k]
    by (simp add: processActivitiesFolder_def split: option.splits)
  have "(?m' k = None) = (m k = None)" for k
    using frame [of k]
    by (cases "fst (snd (processActivitiesFolder env source act (m, out))) k"; cases "m k") simp_all
  then have "dom ?m' = dom m"
    by (auto simp: dom_def)
  with frame show ?thesis by simp
qed

theorem processActivitiesFolder_frame_witness:
  "dom (fst (snd (processActivitiesFolder sample_env sample_source ''activities''
                    ([''1'' \<mapsto> \<lparr>ID = ''1'', ContentHash = ''da39a3ee'', Filename = ''ab.txt'',
                               Folder = []\<rparr>], [])))) = {''1''}
   \<and> fst (snd (processActivitiesFolder sample_env sample_source ''activities''
                    ([''1'' \<mapsto> \<lparr>ID = ''1'', ContentHash = ''da39a3ee'', Filename = ''ab.txt'',
                               Folder = []\<rparr>], []))) ''1'' = Some sample_record"
proof -
  let ?m = "[''1'' \<mapsto> \<lparr>ID = ''1'', ContentHash = ''da39a3ee'', Filename = ''ab.txt'',
                               Folder = []\<rparr>]"
  have "fst (snd (processActivitiesFolder sample_env sample_source ''activities'' (?m, [])))
          ''1'' = Some sample_record"
    by (simp add: processActivitiesFolder_def processDir_def assignFolders_result sample_simps)
  then show ?thesis
    using processActivitiesFolder_frame [of sample_env sample_source "''activities''" ?m "[]"]
    by simp
qed

section \<open>Properties of the content materializer\<close>

lemma say_simps [simp]:
  "dest (say msg st) = dest st" "copiedFiles (say msg st) = copiedFiles st"
  "calls (say msg st) = calls st" "printed (say msg st) = printed st @ [msg]"
  by (simp_all add: say_def Printf_def)

lemma called_simps [simp]:
  "dest (called c st) = dest st" "copiedFiles (called c st) = copiedFiles st"
  "calls (called c st) = calls st @ [c]" "printed (called c st) = printed st"
  by (simp_all add: called_def)

lemma copyFile_unfold:
  "copyFile env source d file st =
     (if length (ContentHash file) < 2 then Some (say (WarnInvalidHash (ID file)) st)
      else
        (let src = sourceFilePath env file; st1 = called (CallOpen src) st in
         case Open source src of
           None \<Rightarrow> Some (say (WarnSourceNotFound src) st1)
         | Some payload \<Rightarrow>
             (let p = destinationPath env d file; st2 = called (CallStat p) st1 in
              case os_Stat env (dest st) p of
                StatOk \<Rightarrow> Some (say (SkipExists p) st2)
              | StatErr \<Rightarrow> Some (say (ErrCheckingFile p) st2)
              | StatNotExist \<Rightarrow>
                  (let r = ensureDir env (filepath_Dir env p) st2 in
                   if fst r then Some (writeFile env src payload p (snd r)) else Some (snd r)))))"
  by (simp add: copyFile_def sourceFilePath_def destinationPath_def slice_to_def Let_def
           split: option.splits stat_result.splits prod.splits bool.splits)

lemma copyFile_total: "\<exists>st'. copyFile env source d file st = Some st'"
  by (simp add: copyFile_unfold Let_def split: option.splits stat_result.splits)

lemma copyLoop_total: "\<exists>st'. copyLoop env source d m order st = Some st'"
proof (induction order arbitrary: st)
  case Nil
  show ?case by simp
next
  case (Cons k ks)
  show ?case
  proof (cases "m k")
    case None
    with Cons.IH show ?thesis by simp
  next
    case (Some f)
    obtain st1 where "copyFile env source d f st = Some st1"
      using copyFile_total by blast
    with Some Cons.IH [of st1] show ?thesis by simp
  qed
qed

lemmas os_defs = os_Stat_def os_MkdirAll_def os_Create_def io_Copy_def

lemma world_le_refl: "world_le env w w"
  by (simp add: world_le_def)

lemma world_le_trans:
  assumes "world_le env w1 w2" and "world_le env w2 w3"
  shows "world_le env w1 w3"
proof -
  have "files w1 \<subseteq>\<^sub>m files w3"
    using assms by (auto simp: world_le_def intro: map_le_trans)
  moreover have "dirs w1 \<subseteq> dirs w3"
    using assms by (auto simp: world_le_def)
  moreover have "\<not> mkdir_fault env dir \<and> dir \<notin> dom (files w1)" if "dir \<in> dirs w3 - dirs w1" for dir
  proof (cases "dir \<in> dirs w2")
    case True
    with that assms(1) show ?thesis by (auto simp: world_le_def)
  next
    case False
    with that assms(2) have "\<not> mkdir_fault env dir \<and> dir \<notin> dom (files w2)"
      by (auto simp: world_le_def)
    moreover have "dom (files w1) \<subseteq> dom (files w2)"
      using assms(1) by (auto simp: world_le_def dest: map_le_implies_dom_le)
    ultimately show ?thesis by blast
  qed
  ultimately show ?thesis
    by (simp add: world_le_def)
qed

lemma ensureDir_world:
  assumes "ensureDir env dir st = (ok, st1)"
  shows "files (dest st1) = files (dest st) \<and> copiedFiles st1 = copiedFiles st
         \<and> world_le env (dest st) (dest st1)
         \<and> (ok \<longrightarrow> os_Stat env (dest st1) dir = StatOk \<or> dest st1 = dest st)"
  using assms
  by (auto simp: ensureDir_def os_defs world_le_def Let_def
           split: stat_result.splits if_splits)

lemma writeFile_world:
  "world_le env (dest st) (dest (writeFile env src payload p st))" 
  if "p \<notin> dom (files (dest st))"
  using that
  by (auto simp: writeFile_def os_defs world_le_def Let_def map_le_def)

lemma copyFile_world_le:
  assumes "copyFile env source d file st = Some st'"
  shows "world_le env (dest st) (dest st')"
proof -
  let ?src = "sourceFilePath env file" and ?p = "destinationPath env d file"
  show ?thesis
  proof (cases "length (ContentHash file) < 2 \<or> Open source ?src = None
                \<or> os_Stat env (dest st) ?p \<noteq> StatNotExist")
    case True
    with assms have "dest st' = dest st"
      by (auto simp: copyFile_unfold Let_def split: option.splits stat_result.splits if_splits)
    then show ?thesis by (simp add: world_le_refl)
  next
    case False
    then obtain payload where o: "Open source ?src = Some payload" by auto
    let ?st2 = "called (CallStat ?p) (called (CallOpen ?src) st)"
    obtain ok st3 where e: "ensureDir env (filepath_Dir env ?p) ?st2 = (ok, st3)"
      by (cases "ensureDir env (filepath_Dir env ?p) ?st2")
    from False have np: "?p \<notin> dom (files (dest st))"
      by (auto simp: os_Stat_def split: if_splits)
    from ensureDir_world [OF e] have le1: "world_le env (dest st) (dest st3)"
      and f3: "files (dest st3) = files (dest st)" by simp_all
    show ?thesis
    proof (cases ok)
      case True
      with assms False o e have "st' = writeFile env ?src payload ?p st3"
        by (auto simp: copyFile_unfold Let_def split: stat_result.splits)
      moreover have "world_le env (dest st3) (dest (writeFile env ?src payload ?p st3))"
        by (rule writeFile_world) (simp add: f3 np)
      ultimately show ?thesis
        using le1 world_le_trans by blast
    next
      case no: False
      with assms False o e have "st' = st3"
        by (auto simp: copyFile_unfold Let_def split: stat_result.splits)
      with le1 show ?thesis by simp
    qed
  qed
qed

lemma quiet_step:
  assumes "quiet env source d file (dest st)"
  shows "\<exists>st' cs. copyFile env source d file st = Some st' \<and> dest st' = dest st
           \<and> copiedFiles st' = copiedFiles st \<and> calls st' = calls st @ cs
           \<and> (\<forall>c\<in>set cs. \<forall>p s. c \<noteq> CallCopy s p)"
proof -
  let ?src = "sourceFilePath env file" and ?p = "destinationPath env d file"
  let ?dir = "filepath_Dir env ?p"
  show ?thesis
  proof (cases "length (ContentHash file) < 2 \<or> Open source ?src = None
                \<or> os_Stat env (dest st) ?p \<noteq> StatNotExist")
    case True
    then show ?thesis
      by (auto simp: copyFile_unfold Let_def split: option.splits stat_result.splits)
  next
    case False
    then obtain payload where o: "Open source ?src = Some payload"
      and len: "\<not> length (ContentHash file) < 2"
      and p: "os_Stat env (dest st) ?p = StatNotExist"
      by auto
    from assms False
    consider (a) "os_Stat env (dest st) ?dir = StatErr"
      | (b) "os_Stat env (dest st) ?dir = StatNotExist" "\<not> fst (os_MkdirAll env (dest st) ?dir)"
      | (c) "os_Stat env (dest st) ?dir = StatOk" "\<not> fst (os_Create env (dest st) ?p)"
      by (auto simp: quiet_def Let_def)
    then show ?thesis
    proof cases
      case a
      with o len p show ?thesis
        by (simp add: copyFile_unfold ensureDir_def Let_def)
    next
      case b
      from b(2) have "os_MkdirAll env (dest st) ?dir = (False, dest st)"
        by (auto simp: os_MkdirAll_def split: if_splits)
      with b(1) o len p show ?thesis
        by (simp add: copyFile_unfold ensureDir_def Let_def)
    next
      case c
      from c(2) have "os_Create env (dest st) ?p = (False, dest st)"
        by (auto simp: os_Create_def split: if_splits)
      with c(1) o len p show ?thesis
        by (simp add: copyFile_unfold ensureDir_def writeFile_def Let_def)
    qed
  qed
qed

lemma quiet_mono:
  assumes "quiet env source d file w" and "world_le env w w'"
  shows "quiet env source d file w'"
proof -
  let ?p = "destinationPath env d file"
  let ?dir = "filepath_Dir env ?p"
  from assms(2) have sub: "dom (files w) \<subseteq> dom (files w')" "dirs w \<subseteq> dirs w'"
    and new: "\<And>x. x \<in> dirs w' \<Longrightarrow> x \<notin> dirs w \<Longrightarrow> \<not> mkdir_fault env x \<and> x \<notin> dom (files w)"
    by (auto simp: world_le_def dest: map_le_implies_dom_le)
  show ?thesis
  proof (cases "length (ContentHash file) < 2 \<or> Open source (sourceFilePath env file) = None
                \<or> os_Stat env w' ?p \<noteq> StatNotExist")
    case True
    then show ?thesis by (auto simp: quiet_def Let_def)
  next
    case False
    then have p': "os_Stat env w' ?p = StatNotExist" by simp
    then have p: "os_Stat env w ?p = StatNotExist"
      using sub by (auto simp: os_Stat_def split: if_splits)
    from p' have nd: "?dir \<notin> dom (files w')" "?p \<notin> dirs w'" "?p \<notin> dom (files w')"
      by (auto simp: os_Stat_def split: if_splits)
    from assms(1) False p
    consider (a) "os_Stat env w ?dir = StatErr"
      | (b) "os_Stat env w ?dir = StatNotExist" "\<not> fst (os_MkdirAll env w ?dir)"
      | (c) "os_Stat env w ?dir = StatOk" "\<not> fst (os_Create env w ?p)"
      by (auto simp: quiet_def Let_def)
    then show ?thesis
    proof cases
      case a
      then have "os_Stat env w' ?dir = StatErr"
        using sub by (auto simp: os_Stat_def split: if_splits)
      then show ?thesis by (simp add: quiet_def Let_def)
    next
      case b
      then have fault: "mkdir_fault env ?dir" and "?dir \<notin> dirs w"
        by (auto simp: os_defs split: if_splits)
      with new [of ?dir] have "?dir \<notin> dirs w'" by blast
      with fault nd have
        "os_Stat env w' ?dir = StatErr
         \<or> (os_Stat env w' ?dir = StatNotExist \<and> \<not> fst (os_MkdirAll env w' ?dir))"
        by (auto simp: os_defs)
      then show ?thesis by (auto simp: quiet_def Let_def)
    next
      case c
      from c(1) have ex: "?dir \<in> dom (files w) \<or> ?dir \<in> dirs w"
        by (auto simp: os_Stat_def split: if_splits)
      with sub nd have inw: "?dir \<in> dirs w" by blast
      from c(2) p have "create_fault env ?p \<or> ?dir \<notin> dirs w"
        by (auto simp: os_defs split: if_splits)
      with inw have cf: "create_fault env ?p" by simp
      then have "\<not> fst (os_Create env w' ?p)"
        by (simp add: os_defs)
      moreover have "os_Stat env w' ?dir = StatErr \<or> os_Stat env w' ?dir = StatOk"
        using inw sub by (auto simp: os_Stat_def)
      ultimately show ?thesis by (auto simp: quiet_def Let_def)
    qed
  qed
qed

lemma quiet_after:
  assumes "copyFile env source d file st = Some st'"
  shows "quiet env source d file (dest st')"
proof (cases "quiet env source d file (dest st)")
  case True
  with quiet_step [OF True] assms show ?thesis by auto
next
  case False
  let ?src = "sourceFilePath env file" and ?p = "destinationPath env d file"
  let ?dir = "filepath_Dir env ?p"
  from False obtain payload where o: "Open source ?src = Some payload"
    and len: "\<not> length (ContentHash file) < 2"
    and p: "os_Stat env (dest st) ?p = StatNotExist"
    by (auto simp: quiet_def Let_def)
  from False p o len assms show ?thesis
    by (auto simp: quiet_def copyFile_unfold ensureDir_def writeFile_def os_defs Let_def
             split: option.splits stat_result.splits if_splits)
qed

lemma copyLoop_world_le:
  "copyLoop env source d m order st = Some st' \<Longrightarrow> world_le env (dest st) (dest st')"
proof (induction order arbitrary: st)
  case Nil
  then show ?case by (simp add: world_le_refl)
next
  case (Cons k ks)
  show ?case
  proof (cases "m k")
    case None
    with Cons show ?thesis by simp
  next
    case (Some f)
    with Cons.prems obtain st1 where
      1: "copyFile env source d f st = Some st1" and 2: "copyLoop env source d m ks st1 = Some st'"
      by (auto split: option.splits)
    from copyFile_world_le [OF 1] Cons.IH [OF 2] show ?thesis
      by (rule world_le_trans)
  qed
qed

lemma copyLoop_quiet_after:
  assumes "copyLoop env source d m order st = Some st'" and "k \<in> set order" and "m k = Some f"
  shows "quiet env source d f (dest st')"
  using assms
proof (induction order arbitrary: st)
  case Nil
  then show ?case by simp
next
  case (Cons j js)
  show ?case
  proof (cases "m j")
    case None
    with Cons.prems have "copyLoop env source d m js st = Some st'" and "k \<in> set js"
      by auto
    then show ?thesis
      using Cons.IH Cons.prems(3) by blast
  next
    case (Some g)
    with Cons.prems(1) obtain st1 where
      1: "copyFile env source d g st = Some st1" and 2: "copyLoop env source d m js st1 = Some st'"
      by (auto split: option.splits)
    show ?thesis
    proof (cases "k \<in> set js")
      case True
      then show ?thesis
        using Cons.IH [OF 2] Cons.prems(3) by blast
    next
      case False
      with Cons.prems(2) have "j = k" by simp
      with Some Cons.prems(3) have "g = f" by simp
      with quiet_after [OF 1] have "quiet env source d f (dest st1)" by simp
      then show ?thesis
        using copyLoop_world_le [OF 2] by (rule quiet_mono)
    qed
  qed
qed

lemma copyLoop_all_quiet:
  assumes "\<And>k f. k \<in> set order \<Longrightarrow> m k = Some f \<Longrightarrow> quiet env source d f (dest st)"
  shows "\<exists>st' cs. copyLoop env source d m order st = Some st' \<and> dest st' = dest st
           \<and> copiedFiles st' = copiedFiles st \<and> calls st' = calls st @ cs
           \<and> (\<forall>c\<in>set cs. \<forall>p s. c \<noteq> CallCopy s p)"
  using assms
proof (induction order arbitrary: st)
  case Nil
  then show ?case by simp
next
  case (Cons j js)
  show ?case
  proof (cases "m j")
    case None
    have "\<exists>st' cs. copyLoop env source d m js st = Some st' \<and> dest st' = dest st
           \<and> copiedFiles st' = copiedFiles st \<and> calls st' = calls st @ cs
           \<and> (\<forall>c\<in>set cs. \<forall>p s. c \<noteq> CallCopy s p)"
      by (rule Cons.IH) (use Cons.prems in auto)
    with None show ?thesis by simp
  next
    case (Some g)
    then have "quiet env source d g (dest st)"
      using Cons.prems [of j g] by simp
    from quiet_step [OF this] obtain st1 cs1 where
      1: "copyFile env source d g st = Some st1" "dest st1 = dest st"
         "copiedFiles st1 = copiedFiles st" "calls st1 = calls st @ cs1"
         "\<forall>c\<in>set cs1. \<forall>p s. c \<noteq> CallCopy s p"
      by blast
    have "\<exists>st' cs. copyLoop env source d m js st1 = Some st' \<and> dest st' = dest st1
           \<and> copiedFiles st' = copiedFiles st1 \<and> calls st' = calls st1 @ cs
           \<and> (\<forall>c\<in>set cs. \<forall>p s. c \<noteq> CallCopy s p)"
      by (rule Cons.IH) (use Cons.prems 1(2) in auto)
    then obtain st' cs where
      2: "copyLoop env source d m js st1 = Some st'" "dest st' = dest st1"
         "copiedFiles st' = copiedFiles st1" "calls st' = calls st1 @ cs"
         "\<forall>c\<in>set cs. \<forall>p s. c \<noteq> CallCopy s p"
      by blast
    have "copyLoop env source d m (j # js) st = Some st'"
      using Some 1(1) 2(1) by simp
    moreover have "calls st' = calls st @ (cs1 @ cs)"
      using 1(4) 2(4) by simp
    moreover have "\<forall>c\<in>set (cs1 @ cs). \<forall>p s. c \<noteq> CallCopy s p"
      using 1(5) 2(5) by auto
    ultimately show ?thesis
      using 1(2,3) 2(2,3) by metis
  qed
qed

lemma copyFile_count:
  assumes "copyFile env source d file st = Some st'"
  shows "copiedFiles st' = copiedFiles st
         \<or> (copiedFiles st' = copiedFiles st + 1
            \<and> destinationPath env d file \<notin> dom (files (dest st)))"
    and "dom (files (dest st')) \<subseteq> insert (destinationPath env d file) (dom (files (dest st)))"
  using assms
  by (auto simp: copyFile_unfold ensureDir_def writeFile_def os_defs Let_def
           split: option.splits stat_result.splits if_splits)

lemma copyLoop_count:
  assumes "copyLoop env source d m order st = Some st'"
  shows "finite (dom (files (dest st')) - dom (files (dest st)))
         \<and> copiedFiles st \<le> copiedFiles st'
         \<and> copiedFiles st' - copiedFiles st
             \<le> card (dom (files (dest st')) - dom (files (dest st)))"
  using assms
proof (induction order arbitrary: st)
  case Nil
  then show ?case by simp
next
  case (Cons j js)
  show ?case
  proof (cases "m j")
    case None
    with Cons show ?thesis by simp
  next
    case (Some g)
    with Cons.prems obtain st1 where
      1: "copyFile env source d g st = Some st1" and 2: "copyLoop env source d m js st1 = Some st'"
      by (auto split: option.splits)
    let ?D = "dom (files (dest st))" and ?D1 = "dom (files (dest st1))"
    let ?D' = "dom (files (dest st'))"
    let ?p = "destinationPath env d g"
    from Cons.IH [OF 2] have ih: "finite (?D' - ?D1)" "copiedFiles st1 \<le> copiedFiles st'"
      "copiedFiles st' - copiedFiles st1 \<le> card (?D' - ?D1)" by simp_all
    have sub1: "?D \<subseteq> ?D1"
      using copyFile_world_le [OF 1] by (auto simp: world_le_def dest: map_le_implies_dom_le)
    have sub2: "?D1 \<subseteq> ?D'"
      using copyLoop_world_le [OF 2] by (auto simp: world_le_def dest: map_le_implies_dom_le)
    have small: "?D1 - ?D \<subseteq> {?p}"
      using copyFile_count(2) [OF 1] by auto
    then have fin1: "finite (?D1 - ?D)"
      by (rule finite_subset) simp
    have split: "?D' - ?D = (?D' - ?D1) \<union> (?D1 - ?D)"
      using sub1 sub2 by blast
    have disj: "(?D' - ?D1) \<inter> (?D1 - ?D) = {}"
      by blast
    have card: "card (?D' - ?D) = card (?D' - ?D1) + card (?D1 - ?D)"
      unfolding split using ih(1) fin1 disj by (rule card_Un_disjoint)
    have step: "copiedFiles st \<le> copiedFiles st1
                \<and> copiedFiles st1 - copiedFiles st \<le> card (?D1 - ?D)"
    proof -
      from copyFile_count(1) [OF 1] show ?thesis
      proof
        assume "copiedFiles st1 = copiedFiles st"
        then show ?thesis by simp
      next
        assume inc: "copiedFiles st1 = copiedFiles st + 1 \<and> ?p \<notin> ?D"
        have "?p \<in> ?D1"
          using 1 inc
          by (auto simp: copyFile_unfold ensureDir_def writeFile_def os_defs Let_def
                   split: option.splits stat_result.splits if_splits)
        with inc small have "?D1 - ?D = {?p}" by blast
        with inc show ?thesis by simp
      qed
    qed
    have fin: "finite (?D' - ?D)"
      unfolding split using ih(1) fin1 by simp
    have le: "copiedFiles st \<le> copiedFiles st'"
      using ih(2) step by linarith
    have "copiedFiles st' - copiedFiles st \<le> card (?D' - ?D)"
      using ih(2,3) step card by linarith
    with fin le show ?thesis by simp
  qed
qed

lemma copyFile_created:
  assumes "copyFile env source d file st = Some st'"
    and "CreatedFile p \<in> set (printed st')" and "CreatedFile p \<notin> set (printed st)"
  shows "2 \<le> length (ContentHash file) \<and> p = destinationPath env d file
         \<and> CallCopy (sourceFilePath env file) p \<in> set (calls st')
         \<and> Open source (sourceFilePath env file) \<noteq> None
         \<and> files (dest st') p = Open source (sourceFilePath env file)"
  using assms
  by (auto simp: copyFile_unfold ensureDir_def writeFile_def os_defs Let_def
           split: option.splits stat_result.splits if_splits)

lemma copyFile_calls_mono:
  "copyFile env source d file st = Some st' \<Longrightarrow> set (calls st) \<subseteq> set (calls st')"
  by (auto simp: copyFile_unfold ensureDir_def writeFile_def os_defs Let_def
           split: option.splits stat_result.splits if_splits)

lemma copyLoop_calls_mono:
  "copyLoop env source d m order st = Some st' \<Longrightarrow> set (calls st) \<subseteq> set (calls st')"
proof (induction order arbitrary: st)
  case Nil
  then show ?case by simp
next
  case (Cons j js)
  show ?case
  proof (cases "m j")
    case None
    with Cons show ?thesis by simp
  next
    case (Some g)
    with Cons.prems obtain st1 where
      1: "copyFile env source d g st = Some st1" and 2: "copyLoop env source d m js st1 = Some st'"
      by (auto split: option.splits)
    from copyFile_calls_mono [OF 1] Cons.IH [OF 2] show ?thesis by blast
  qed
qed

lemma copyLoop_created:
  assumes "copyLoop env source d m order st = Some st'"
    and "CreatedFile p \<in> set (printed st')" and "CreatedFile p \<notin> set (printed st)"
  shows "\<exists>k file. k \<in> set order \<and> m k = Some file \<and> 2 \<le> length (ContentHash file)
           \<and> p = destinationPath env d file
           \<and> CallCopy (sourceFilePath env file) p \<in> set (calls st')
           \<and> Open source (sourceFilePath env file) \<noteq> None
           \<and> files (dest st') p = Open source (sourceFilePath env file)"
  using assms
proof (induction order arbitrary: st)
  case Nil
  then show ?case by simp
next
  case (Cons j js)
  show ?case
  proof (cases "m j")
    case None
    with Cons.prems have "copyLoop env source d m js st = Some st'" by simp
    from Cons.IH [OF this Cons.prems(2,3)] show ?thesis by auto
  next
    case (Some g)
    with Cons.prems(1) obtain st1 where
      1: "copyFile env source d g st = Some st1" and 2: "copyLoop env source d m js st1 = Some st'"
      by (auto split: option.splits)
    show ?thesis
    proof (cases "CreatedFile p \<in> set (printed st1)")
      case False
      from Cons.IH [OF 2 Cons.prems(2) False] show ?thesis by auto
    next
      case True
      from copyFile_created [OF 1 True Cons.prems(3)]
      have g: "2 \<le> length (ContentHash g)" "p = destinationPath env d g"
        "CallCopy (sourceFilePath env g) p \<in> set (calls st1)"
        "Open source (sourceFilePath env g) \<noteq> None"
        "files (dest st1) p = Open source (sourceFilePath env g)"
        by blast+
      have "files (dest st1) \<subseteq>\<^sub>m files (dest st')"
        using copyLoop_world_le [OF 2] by (simp add: world_le_def)
      moreover from g(4,5) have "p \<in> dom (files (dest st1))" by auto
      ultimately have "files (dest st') p = files (dest st1) p"
        by (simp add: map_le_def)
      moreover have "CallCopy (sourceFilePath env g) p \<in> set (calls st')"
        using g(3) copyLoop_calls_mono [OF 2] by blast
      ultimately show ?thesis
        using g Some by (intro exI [of _ j] exI [of _ g]) simp
    qed
  qed
qed

lemma sample_run:
  "copyFiles sample_env sample_source ''/out'' [''1'' \<mapsto> sample_record] [''1''] empty_world =
     Some \<lparr>dest = \<lparr>files = [''/out/MyFolder/ab.txt'' \<mapsto> ''payload 1''],
                    dirs = {''/out/MyFolder''}\<rparr>,
           copiedFiles = 1,
           printed = [CreatedDir ''/out/MyFolder'', CreatedFile ''/out/MyFolder/ab.txt''],
           calls = [CallOpen ''files/da/da39a3ee'', CallStat ''/out/MyFolder/ab.txt'',
                    CallStat ''/out/MyFolder'', CallMkdirAll ''/out/MyFolder'',
                    CallCreate ''/out/MyFolder/ab.txt'',
                    CallCopy ''files/da/da39a3ee'' ''/out/MyFolder/ab.txt'']\<rparr>"
  by (simp add: copyFiles_def copyFile_def ensureDir_def writeFile_def os_defs slice_to_def
        say_def called_def sample_simps)

text \<open>
  Claim C5. A record whose content hash is shorter than two characters is skipped:
  the loop body returns the state it was given with one more printed line, the
  warning, so the destination file system, the counter and the list of calls (no open
  of the source, no \<^verbatim>\<open>MkdirAll\<close>, no \<^verbatim>\<open>Create\<close>, no copy) are as before, and the
  loop goes on with the remaining records from that state. The loop body and the
  whole run always return a state: the slice of the first two characters of the hash,
  which is reached only behind the length test, never panics.
\<close>

theorem copyFiles_short_hash_skipped:
  "(length (ContentHash file) < 2 \<longrightarrow>
      copyFile env source d file st = Some (st\<lparr>printed := printed st @ [WarnInvalidHash (ID file)]\<rparr>)
      \<and> (m k = Some file \<longrightarrow>
           copyLoop env source d m (k # ks) st =
           copyLoop env source d m ks (st\<lparr>printed := printed st @ [WarnInvalidHash (ID file)]\<rparr>)))
   \<and> (\<exists>st'. copyFile env source d file st = Some st')
   \<and> (\<exists>st'. copyFiles env source d m order w = Some st')"
  using copyFile_total [of env source d "file" st] copyLoop_total [of env source d m order]
  by (auto simp: copyFile_def copyFiles_def say_def Printf_def)

theorem copyFiles_short_hash_skipped_witness:
  "copyFile sample_env sample_source ''/out''
     \<lparr>ID = ''2'', ContentHash = ''x'', Filename = ''c.txt'', Folder = []\<rparr>
     \<lparr>dest = empty_world, copiedFiles = 0, printed = [], calls = []\<rparr>
   = Some \<lparr>dest = empty_world, copiedFiles = 0, printed = [WarnInvalidHash ''2''], calls = []\<rparr>
   \<and> copyFiles sample_env sample_source ''/out''
       [''2'' \<mapsto> \<lparr>ID = ''2'', ContentHash = ''x'', Filename = ''c.txt'', Folder = []\<rparr>]
       [''2''] empty_world
   = Some \<lparr>dest = empty_world, copiedFiles = 0, printed = [WarnInvalidHash ''2''], calls = []\<rparr>"
proof -
  let ?f = "\<lparr>ID = ''2'', ContentHash = ''x'', Filename = ''c.txt'', Folder = []\<rparr>"
  let ?st = "\<lparr>dest = empty_world, copiedFiles = 0, printed = [], calls = []\<rparr>"
  have short: "length (ContentHash ?f) < 2"
    by simp
  have look: "[''2'' \<mapsto> ?f] ''2'' = Some ?f"
    by simp
  from copyFiles_short_hash_skipped
    [of ?f sample_env sample_source "''/out''" ?st "[''2'' \<mapsto> ?f]" "''2''" "[]"]
    short look
  have "copyFile sample_env sample_source ''/out'' ?f ?st
          = Some (?st\<lparr>printed := printed ?st @ [WarnInvalidHash (ID ?f)]\<rparr>)"
    and "copyLoop sample_env sample_source ''/out'' [''2'' \<mapsto> ?f] [''2''] ?st
          = copyLoop sample_env sample_source ''/out'' [''2'' \<mapsto> ?f] []
              (?st\<lparr>printed := printed ?st @ [WarnInvalidHash (ID ?f)]\<rparr>)"
    by blast+
  then show ?thesis
    by (simp add: copyFiles_def)
qed

text \<open>
  Claim C9. Every file a run of \<^verbatim>\<open>copyFiles\<close> reports as created belongs to a record
  of the mapping with a hash of at least two characters. Its path is the join of the
  destination root and the file name when the folder of the record is empty, and the
  join of the destination root, the folder and the file name otherwise; the payload was
  copied from the join of \<^verbatim>\<open>files\<close>, the first two characters of the hash and the
  whole hash, which the store could open; and at the end of the run the file holds the
  bytes stored there. The joins are those of \<^verbatim>\<open>path.Join\<close> and \<^verbatim>\<open>filepath.Join\<close>.
\<close>

theorem copyFiles_paths:
  assumes "copyFiles env source d m order w = Some st'"
    and "CreatedFile p \<in> set (printed st')"
  shows "\<exists>k file. k \<in> set order \<and> m k = Some file \<and> 2 \<le> length (ContentHash file)
           \<and> p = (if Folder file = [] then filepath_Join env [d, Filename file]
                  else filepath_Join env [d, Folder file, Filename file])
           \<and> CallCopy (path_Join env [''files'', take 2 (ContentHash file), ContentHash file]) p
               \<in> set (calls st')
           \<and> Open source (path_Join env [''files'', take 2 (ContentHash file), ContentHash file])
               \<noteq> None
           \<and> files (dest st') p =
               Open source (path_Join env [''files'', take 2 (ContentHash file), ContentHash file])"
  using copyLoop_created [of env source d m order _ st' p] assms
  by (simp add: copyFiles_def destinationPath_def sourceFilePath_def)

theorem copyFiles_paths_witness:
  "copyFiles sample_env sample_source ''/out'' [''1'' \<mapsto> sample_record] [''1''] empty_world
     \<noteq> None
   \<and> files (dest (the (copyFiles sample_env sample_source ''/out'' [''1'' \<mapsto> sample_record]
                          [''1''] empty_world))) ''/out/MyFolder/ab.txt''
     = Open sample_source ''files/da/da39a3ee''
   \<and> filepath_Join sample_env [''/out'', Folder sample_record, Filename sample_record]
     = ''/out/MyFolder/ab.txt''
   \<and> path_Join sample_env
        [''files'', take 2 (ContentHash sample_record), ContentHash sample_record]
     = ''files/da/da39a3ee''"
proof -
  have "CreatedFile ''/out/MyFolder/ab.txt''
          \<in> set [CreatedDir ''/out/MyFolder'', CreatedFile ''/out/MyFolder/ab.txt'']"
    by simp
  with copyFiles_paths [OF sample_run, of "''/out/MyFolder/ab.txt''"]
  obtain k f where
    "k \<in> set [''1'']" "[''1'' \<mapsto> sample_record] k = Some f"
    "files \<lparr>files = [''/out/MyFolder/ab.txt'' \<mapsto> ''payload 1''], dirs = {''/out/MyFolder''}\<rparr>
       ''/out/MyFolder/ab.txt''
     = Open sample_source
         (path_Join sample_env [''files'', take 2 (ContentHash f), ContentHash f])"
    by auto
  then have "files \<lparr>files = [''/out/MyFolder/ab.txt'' \<mapsto> ''payload 1''],
                    dirs = {''/out/MyFolder''}\<rparr> ''/out/MyFolder/ab.txt''
     = Open sample_source ''files/da/da39a3ee''"
    by (simp add: sample_simps)
  then show ?thesis
    by (simp add: sample_run) (simp add: sample_simps)
qed

text \<open>
  Claim C3. On a destination file system whose operations fail only for reasons
  fixed by the path or by the state of the tree: a record whose destination path
  exists is skipped, with the file system and the counter as they were, and when its
  payload was opened the only line printed for it is the one that reports the
  existing file; a run overwrites no file that was there before it and counts at most
  as many records as it added files; and a second run over records of the first run,
  from the file system the first run left and in any order, leaves the file system as
  it is, copies no payload and returns the count zero.
\<close>

theorem copyFiles_idempotent:
  assumes "copyFiles env source d m order1 w0 = Some st1" and "set order2 \<subseteq> set order1"
  shows "files w0 \<subseteq>\<^sub>m files (dest st1)
         \<and> copiedFiles st1 \<le> card (dom (files (dest st1)) - dom (files w0))
         \<and> (\<exists>st2. copyFiles env source d m order2 (dest st1) = Some st2
                \<and> dest st2 = dest st1 \<and> copiedFiles st2 = 0
                \<and> (\<forall>c\<in>set (calls st2). \<forall>s p. c \<noteq> CallCopy s p))
         \<and> (os_Stat env (dest st)
               (if Folder file = [] then filepath_Join env [d, Filename file]
                else filepath_Join env [d, Folder file, Filename file]) = StatOk \<longrightarrow>
             (\<exists>st'. copyFile env source d file st = Some st' \<and> dest st' = dest st
                \<and> copiedFiles st' = copiedFiles st)
             \<and> (2 \<le> length (ContentHash file)
                 \<and> Open source
                      (path_Join env [''files'', take 2 (ContentHash file), ContentHash file])
                     \<noteq> None \<longrightarrow>
                 copyFile env source d file st =
                   Some (st\<lparr>printed := printed st @
                              [SkipExists
                                 (if Folder file = [] then filepath_Join env [d, Filename file]
                                  else filepath_Join env [d, Folder file, Filename file])],
                            calls := calls st @
                              [CallOpen
                                 (path_Join env
                                    [''files'', take 2 (ContentHash file), ContentHash file]),
                               CallStat
                                 (if Folder file = [] then filepath_Join env [d, Filename file]
                                  else filepath_Join env [d, Folder file, Filename file])]\<rparr>)))"
proof -
  let ?st0 = "\<lparr>dest = w0, copiedFiles = 0, printed = [], calls = []\<rparr>"
  from assms(1) have run: "copyLoop env source d m order1 ?st0 = Some st1"
    by (simp add: copyFiles_def)
  have a: "files w0 \<subseteq>\<^sub>m files (dest st1)"
    using copyLoop_world_le [OF run] by (simp add: world_le_def)
  have b: "copiedFiles st1 \<le> card (dom (files (dest st1)) - dom (files w0))"
    using copyLoop_count [OF run] by simp
  let ?st1 = "\<lparr>dest = dest st1, copiedFiles = 0, printed = [], calls = []\<rparr>"
  have q: "quiet env source d f (dest ?st1)" if "k \<in> set order2" "m k = Some f" for k f
    using copyLoop_quiet_after [OF run _ that(2)] that(1) assms(2) by auto
  have "\<exists>st2 cs. copyLoop env source d m order2 ?st1 = Some st2 \<and> dest st2 = dest ?st1
           \<and> copiedFiles st2 = copiedFiles ?st1 \<and> calls st2 = calls ?st1 @ cs
           \<and> (\<forall>c\<in>set cs. \<forall>p s. c \<noteq> CallCopy s p)"
    by (rule copyLoop_all_quiet) (rule q)
  then have c: "\<exists>st2. copyFiles env source d m order2 (dest st1) = Some st2
                \<and> dest st2 = dest st1 \<and> copiedFiles st2 = 0
                \<and> (\<forall>c\<in>set (calls st2). \<forall>s p. c \<noteq> CallCopy s p)"
    by (auto simp: copyFiles_def)
  have e: "\<exists>st'. copyFile env source d file st = Some st' \<and> dest st' = dest st
                \<and> copiedFiles st' = copiedFiles st"
    if "os_Stat env (dest st) (destinationPath env d file) = StatOk"
    using quiet_step [of env source d "file" st] that by (auto simp: quiet_def Let_def)
  have f: "copyFile env source d file st =
             Some (st\<lparr>printed := printed st @ [SkipExists (destinationPath env d file)],
                      calls := calls st @
                        [CallOpen (sourceFilePath env file),
                         CallStat (destinationPath env d file)]\<rparr>)"
    if "os_Stat env (dest st) (destinationPath env d file) = StatOk"
      and "2 \<le> length (ContentHash file)"
      and "Open source (sourceFilePath env file) \<noteq> None"
    using that
    by (auto simp: copyFile_unfold Let_def say_def called_def Printf_def)
  from a b c e f show ?thesis
    by (simp add: destinationPath_def sourceFilePath_def)
qed

theorem copyFiles_idempotent_witness:
  "map_option copiedFiles
       (copyFiles sample_env sample_source ''/out'' [''1'' \<mapsto> sample_record] [''1''] empty_world)
     = Some 1
   \<and> map_option copiedFiles
       (copyFiles sample_env sample_source ''/out'' [''1'' \<mapsto> sample_record] [''1'']
          \<lparr>files = [''/out/MyFolder/ab.txt'' \<mapsto> ''payload 1''], dirs = {''/out/MyFolder''}\<rparr>)
     = Some 0
   \<and> copyFile sample_env sample_source ''/out'' sample_record
          \<lparr>dest = \<lparr>files = [''/out/MyFolder/ab.txt'' \<mapsto> ''payload 1''],
                   dirs = {''/out/MyFolder''}\<rparr>,
           copiedFiles = 0, printed = [], calls = []\<rparr>
     = Some \<lparr>dest = \<lparr>files = [''/out/MyFolder/ab.txt'' \<mapsto> ''payload 1''],
                     dirs = {''/out/MyFolder''}\<rparr>,
             copiedFiles = 0, printed = [SkipExists ''/out/MyFolder/ab.txt''],
             calls = [CallOpen ''files/da/da39a3ee'', CallStat ''/out/MyFolder/ab.txt'']\<rparr>"
proof -
  let ?w = "\<lparr>files = [''/out/MyFolder/ab.txt'' \<mapsto> ''payload 1''], dirs = {''/out/MyFolder''}\<rparr>"
  let ?st = "\<lparr>dest = ?w, copiedFiles = 0, printed = [], calls = []\<rparr>"
  have sub: "set [''1''] \<subseteq> set [''1'']"
    by simp
  note t = copyFiles_idempotent [OF sample_run sub]
  from t [THEN conjunct2, THEN conjunct2, THEN conjunct1]
  have second: "map_option copiedFiles
       (copyFiles sample_env sample_source ''/out'' [''1'' \<mapsto> sample_record] [''1''] ?w)
     = Some 0"
    by auto
  have exists: "os_Stat sample_env (dest ?st)
          (if Folder sample_record = []
           then filepath_Join sample_env [''/out'', Filename sample_record]
           else filepath_Join sample_env [''/out'', Folder sample_record, Filename sample_record])
        = StatOk"
    by (simp add: os_Stat_def sample_simps)
  have payload: "2 \<le> length (ContentHash sample_record)
      \<and> Open sample_source
           (path_Join sample_env
              [''files'', take 2 (ContentHash sample_record), ContentHash sample_record])
          \<noteq> None"
    by (simp add: sample_simps)
  from t [THEN conjunct2, THEN conjunct2, THEN conjunct2, rule_format, OF exists,
          THEN conjunct2, rule_format, OF payload]
  have "copyFile sample_env sample_source ''/out'' sample_record ?st
     = Some \<lparr>dest = ?w, copiedFiles = 0, printed = [SkipExists ''/out/MyFolder/ab.txt''],
             calls = [CallOpen ''files/da/da39a3ee'', CallStat ''/out/MyFolder/ab.txt'']\<rparr>"
    by (simp add: sample_simps)
  with second show ?thesis
    by (simp add: sample_run)
qed

end
